theory Spec2Isabelle
  imports Main
begin

section \<open>The compact boolean matrix of compact\_bool.py\<close>

text \<open>
  The class \<open>CompactBoolMatrix\<close> keeps a ctypes structure with the fields \<open>og_size\<close>,
  \<open>new_size\<close> and \<open>matrix\<close>, the last one an array of \<open>new_size\<close> arrays of \<open>new_size\<close>
  signed bytes. Every method is embedded as a function that takes the structure and returns
  the raised exception or the result, together with the structure as the call leaves it.

  Integers are Python's unbounded ones (\<open>int\<close>). The fields \<open>og_size\<close> and \<open>new_size\<close> are
  32-bit and the cells 8-bit in the source; the model reads them back exactly, which is what
  the source does for every size whose \<open>new_size * new_size\<close> bytes can be allocated, and for
  the cell values 0 to 15, the only ones the methods write.
\<close>

datatype error = OutOfBound | IndexError | ValueError

record mat_struct =
  og_size :: int
  new_size :: int
  matrix :: "int list list"

subsection \<open>Indexing of Python lists and ctypes arrays\<close>

text \<open>
  \<open>a[i]\<close> on a list and on a ctypes array: an index from \<open>-len\<close> to \<open>-1\<close> counts from the
  end, an index outside \<open>-len .. len - 1\<close> raises \<open>IndexError\<close>.
\<close>

definition item :: "'a list \<Rightarrow> int \<Rightarrow> error + 'a" where
  "item xs i =
     (if 0 \<le> i \<and> i < int (length xs) then Inr (xs ! nat i)
      else if - int (length xs) \<le> i \<and> i < 0 then Inr (xs ! nat (i + int (length xs)))
      else Inl IndexError)"

definition setitem :: "'a list \<Rightarrow> int \<Rightarrow> 'a \<Rightarrow> error + 'a list" where
  "setitem xs i v =
     (if 0 \<le> i \<and> i < int (length xs) then Inr (xs[nat i := v])
      else if - int (length xs) \<le> i \<and> i < 0 then Inr (xs[nat (i + int (length xs)) := v])
      else Inl IndexError)"

text \<open>\<open>range(n)\<close>: the integers from 0 below \<open>n\<close>, none when \<open>n \<le> 0\<close>.\<close>

definition py_range :: "int \<Rightarrow> int list" where
  "py_range n = map int [0 ..< nat n]"

text \<open>\<open>self.matrix.matrix[a][b]\<close>, as a read.\<close>

definition read_cell :: "mat_struct \<Rightarrow> int \<Rightarrow> int \<Rightarrow> error + int" where
  "read_cell m a b =
     (case item (matrix m) a of
        Inl e \<Rightarrow> Inl e
      | Inr row \<Rightarrow> item row b)"

text \<open>
  \<open>self.matrix.matrix[a][b] = v\<close>: the row \<open>matrix[a]\<close> is fetched first and shares the
  structure's memory, so the assignment to its element \<open>b\<close> changes the structure. When
  either index is refused nothing is written.
\<close>

definition write_cell :: "mat_struct \<Rightarrow> int \<Rightarrow> int \<Rightarrow> int \<Rightarrow> (error + unit) \<times> mat_struct" where
  "write_cell m a b v =
     (case item (matrix m) a of
        Inl e \<Rightarrow> (Inl e, m)
      | Inr row \<Rightarrow>
          (case setitem row b v of
             Inl e \<Rightarrow> (Inl e, m)
           | Inr row' \<Rightarrow>
               (case setitem (matrix m) a row' of
                  Inl e \<Rightarrow> (Inl e, m)
                | Inr rows' \<Rightarrow> (Inr (), m\<lparr>matrix := rows'\<rparr>))))"

text \<open>
  A \<open>for\<close> loop over a list of indices whose body changes the structure; an exception raised
  by the body ends the loop and leaves the structure as the body left it.
\<close>

fun for_each :: "int list \<Rightarrow> (int \<Rightarrow> mat_struct \<Rightarrow> (error + unit) \<times> mat_struct)
    \<Rightarrow> mat_struct \<Rightarrow> (error + unit) \<times> mat_struct" where
  "for_each [] body m = (Inr (), m)"
| "for_each (i # is) body m =
     (case body i m of
        (Inl e, m') \<Rightarrow> (Inl e, m')
      | (Inr u, m') \<Rightarrow> for_each is body m')"

subsection \<open>Construction\<close>

text \<open>
  \<open>__init__\<close>: \<open>new_size = ceil(size / 2)\<close>; the array type \<open>(c_int8 * new_size) * new_size\<close>
  is built, which ctypes refuses with \<open>ValueError\<close> for a negative length; the structure is
  created with every byte zero. There is no other check of \<open>size\<close>.
\<close>

definition init :: "int \<Rightarrow> error + mat_struct" where
  "init sz =
     (let new_sz = - ((- sz) div 2) in
      if new_sz < 0 then Inl ValueError
      else Inr \<lparr>og_size = sz, new_size = new_sz,
                matrix = replicate (nat new_sz) (replicate (nat new_sz) 0)\<rparr>)"

subsection \<open>Bulk fill\<close>

definition all_false :: "mat_struct \<Rightarrow> (error + unit) \<times> mat_struct" where
  "all_false m =
     for_each (py_range (new_size m))
       (\<lambda>i. for_each (py_range (new_size m)) (\<lambda>j m'. write_cell m' i j 0)) m"

definition all_true :: "mat_struct \<Rightarrow> (error + unit) \<times> mat_struct" where
  "all_true m =
     for_each (py_range (new_size m))
       (\<lambda>i. for_each (py_range (new_size m)) (\<lambda>j m'. write_cell m' i j 15)) m"

subsection \<open>Domain and packed value of a coordinate\<close>

text \<open>\<open>__get_domain\<close>, with the chained comparisons \<open>x > s > y\<close> and \<open>x < s < y\<close> written out.\<close>

definition get_domain :: "mat_struct \<Rightarrow> int \<Rightarrow> int \<Rightarrow> error + int" where
  "get_domain m x y =
     (let s = new_size m in
      if x \<ge> og_size m \<or> y \<ge> og_size m then Inl OutOfBound
      else if x < s \<and> y < s then Inr 0
      else if x > s \<and> s > y then Inr 1
      else if x < s \<and> s < y then Inr 2
      else Inr 3)"

definition get_compact_val :: "mat_struct \<Rightarrow> int \<Rightarrow> int \<Rightarrow> int \<Rightarrow> error + int" where
  "get_compact_val m x y domain =
     (let s = new_size m in
      if domain = 0 then read_cell m x y
      else if domain = 1 then read_cell m (x - s) y
      else if domain = 2 then read_cell m x (y - s)
      else read_cell m (x - s) (y - s))"

subsection \<open>The tables\<close>

definition set_false_table_0 :: "int list" where
  "set_false_table_0 = [0, 0, 2, 3, 4, 2, 3, 4, 8, 9, 10, 8, 9, 10, 14, 14]"

definition set_false_table_1 :: "int list" where
  "set_false_table_1 = [0, 1, 0, 3, 4, 1, 6, 7, 3, 4, 10, 6, 7, 13, 10, 13]"

definition set_false_table_2 :: "int list" where
  "set_false_table_2 = [0, 1, 2, 0, 4, 5, 1, 7, 2, 9, 4, 5, 12, 7, 9, 12]"

definition set_false_table_3 :: "int list" where
  "set_false_table_3 = [0, 1, 2, 3, 0, 5, 6, 1, 8, 2, 3, 11, 5, 6, 8, 11]"

definition set_true_table_0 :: "int list" where
  "set_true_table_0 = [1, 1, 5, 6, 7, 5, 6, 7, 11, 12, 13, 11, 12, 13, 15, 15]"

definition set_true_table_1 :: "int list" where
  "set_true_table_1 = [2, 5, 2, 8, 9, 5, 11, 12, 8, 9, 14, 11, 12, 15, 14, 15]"

definition set_true_table_2 :: "int list" where
  "set_true_table_2 = [3, 6, 8, 3, 10, 11, 6, 13, 8, 14, 10, 11, 15, 13, 14, 15]"

definition set_true_table_3 :: "int list" where
  "set_true_table_3 = [4, 7, 9, 10, 4, 12, 13, 7, 14, 9, 10, 15, 12, 13, 14, 15]"

definition truth_table_0 :: "bool list" where
  "truth_table_0 = [False, True, False, False, False, True, True, True,
                    False, False, False, True, True, True, False, True]"

definition truth_table_1 :: "bool list" where
  "truth_table_1 = [False, False, True, False, False, True, False, False,
                    True, True, False, True, True, False, True, True]"

definition truth_table_2 :: "bool list" where
  "truth_table_2 = [False, False, False, True, False, False, True, False,
                    True, False, True, True, False, True, True, True]"

definition truth_table_3 :: "bool list" where
  "truth_table_3 = [False, False, False, False, True, False, False, True,
                    False, True, True, False, True, True, True, True]"

subsection \<open>Writing and reading one cell\<close>

text \<open>
  The three statements every branch of \<open>set_false\<close> and \<open>set_true\<close> consists of: the packed
  value is read, looked up in the branch's table, and the entry is stored at the branch's
  indices \<open>a\<close>, \<open>b\<close>.
\<close>

definition lookup_store :: "mat_struct \<Rightarrow> error + int \<Rightarrow> int list \<Rightarrow> int \<Rightarrow> int
    \<Rightarrow> (error + unit) \<times> mat_struct" where
  "lookup_store m val value_table a b =
     (case val of
        Inl e \<Rightarrow> (Inl e, m)
      | Inr v \<Rightarrow>
          (case item value_table v of
             Inl e \<Rightarrow> (Inl e, m)
           | Inr w \<Rightarrow> write_cell m a b w))"

definition set_false :: "mat_struct \<Rightarrow> int \<Rightarrow> int \<Rightarrow> (error + unit) \<times> mat_struct" where
  "set_false m x y =
     (case get_domain m x y of
        Inl e \<Rightarrow> (Inl e, m)
      | Inr domain \<Rightarrow>
          if domain = 0 then
            lookup_store m (get_compact_val m x y domain) set_false_table_0 x y
          else if domain = 1 then
            lookup_store m (get_compact_val m x y domain) set_false_table_1 (x - new_size m) y
          else if domain = 2 then
            lookup_store m (get_compact_val m x y domain) set_false_table_2 x (y - new_size m)
          else
            lookup_store m (get_compact_val m x y domain) set_false_table_3
              (x - new_size m) (y - new_size m))"

definition set_true :: "mat_struct \<Rightarrow> int \<Rightarrow> int \<Rightarrow> (error + unit) \<times> mat_struct" where
  "set_true m x y =
     (case get_domain m x y of
        Inl e \<Rightarrow> (Inl e, m)
      | Inr domain \<Rightarrow>
          if domain = 0 then
            lookup_store m (get_compact_val m x y domain) set_true_table_0 x y
          else if domain = 1 then
            lookup_store m (get_compact_val m x y domain) set_true_table_1 (x - new_size m) y
          else if domain = 2 then
            lookup_store m (get_compact_val m x y domain) set_true_table_2 x (y - new_size m)
          else
            lookup_store m (get_compact_val m x y domain) set_true_table_3
              (x - new_size m) (y - new_size m))"

definition lookup_truth :: "error + int \<Rightarrow> bool list \<Rightarrow> error + bool" where
  "lookup_truth val truth_table =
     (case val of
        Inl e \<Rightarrow> Inl e
      | Inr v \<Rightarrow> item truth_table v)"

definition get :: "mat_struct \<Rightarrow> int \<Rightarrow> int \<Rightarrow> error + bool" where
  "get m x y =
     (case get_domain m x y of
        Inl e \<Rightarrow> Inl e
      | Inr domain \<Rightarrow>
          if domain = 0 then lookup_truth (get_compact_val m x y domain) truth_table_0
          else if domain = 1 then lookup_truth (get_compact_val m x y domain) truth_table_1
          else if domain = 2 then lookup_truth (get_compact_val m x y domain) truth_table_2
          else lookup_truth (get_compact_val m x y domain) truth_table_3)"

definition switch :: "mat_struct \<Rightarrow> int \<Rightarrow> int \<Rightarrow> (error + unit) \<times> mat_struct" where
  "switch m x y =
     (case get m x y of
        Inl e \<Rightarrow> (Inl e, m)
      | Inr b \<Rightarrow> if b then set_false m x y else set_true m x y)"

subsection \<open>The dense form\<close>

text \<open>
  \<open>compact_to_normal\<close> fills an \<open>og_size\<close> by \<open>og_size\<close> list of lists with \<open>get(i, j)\<close>, row
  by row; an exception of \<open>get\<close> ends it.
\<close>

fun collect :: "('a \<Rightarrow> error + 'b) \<Rightarrow> 'a list \<Rightarrow> error + 'b list" where
  "collect f [] = Inr []"
| "collect f (x # xs) =
     (case f x of
        Inl e \<Rightarrow> Inl e
      | Inr v \<Rightarrow> (case collect f xs of Inl e \<Rightarrow> Inl e | Inr vs \<Rightarrow> Inr (v # vs)))"

definition compact_to_normal :: "mat_struct \<Rightarrow> error + bool list list" where
  "compact_to_normal m =
     collect (\<lambda>i. collect (\<lambda>j. get m i j) (py_range (og_size m))) (py_range (og_size m))"

subsection \<open>Sequences of calls\<close>

text \<open>
  A script calls the methods one after the other on the same object; the first exception
  ends it.
\<close>

fun seq_ops :: "(mat_struct \<Rightarrow> (error + unit) \<times> mat_struct) list \<Rightarrow> mat_struct
    \<Rightarrow> (error + unit) \<times> mat_struct" where
  "seq_ops [] m = (Inr (), m)"
| "seq_ops (f # fs) m =
     (case f m of
        (Inl e, m') \<Rightarrow> (Inl e, m')
      | (Inr u, m') \<Rightarrow> seq_ops fs m')"

text \<open>The example of the \<open>__main__\<close> block; its value is \<open>normal_mat\<close>.\<close>

definition main_demo :: "error + bool list list" where
  "main_demo =
     (case init 5 of
        Inl e \<Rightarrow> Inl e
      | Inr mat \<Rightarrow>
          (case seq_ops [all_false,
                  \<lambda>m. switch m 2 0, \<lambda>m. switch m 2 1, \<lambda>m. switch m 0 2,
                  \<lambda>m. switch m 1 2, \<lambda>m. switch m 3 2, \<lambda>m. switch m 4 2,
                  \<lambda>m. switch m 2 2, \<lambda>m. set_true m 2 3, \<lambda>m. set_true m 2 4] mat of
             (Inl e, mat') \<Rightarrow> Inl e
           | (Inr u, mat') \<Rightarrow> compact_to_normal mat'))"

text \<open>
  A caller may call any public method with any integers and may catch what it raises, so
  the states an object can reach are those left by any list of calls, failed ones included.
\<close>

datatype call = Set_true int int | Set_false int int | Switch int int | All_false | All_true

fun perform :: "mat_struct \<Rightarrow> call \<Rightarrow> mat_struct" where
  "perform m (Set_true x y) = snd (set_true m x y)"
| "perform m (Set_false x y) = snd (set_false m x y)"
| "perform m (Switch x y) = snd (switch m x y)"
| "perform m All_false = snd (all_false m)"
| "perform m All_true = snd (all_true m)"

definition perform_all :: "mat_struct \<Rightarrow> call list \<Rightarrow> mat_struct" where
  "perform_all m cs = foldl perform m cs"

subsection \<open>Notions of the statements\<close>

text \<open>
  None of the following is a function of the source. \<open>invar\<close> describes the structures the
  constructor builds and the methods keep: \<open>new_size\<close> is half of \<open>og_size\<close> rounded up, the
  store is \<open>new_size\<close> by \<open>new_size\<close>, and every packed value is one of 0 to 15.
\<close>

definition invar :: "mat_struct \<Rightarrow> bool" where
  "invar m \<longleftrightarrow>
     - ((- og_size m) div 2) = new_size m \<and> 0 \<le> new_size m \<and>
     length (matrix m) = nat (new_size m) \<and>
     list_all (\<lambda>row. length row = nat (new_size m) \<and> list_all (\<lambda>v. 0 \<le> v \<and> v \<le> 15) row)
       (matrix m)"

text \<open>
  The domain \<open>__get_domain\<close> returns when it does not raise, the table each method uses for
  a domain, the position in the store that an index reaches once Python has wrapped it, and
  the store with one position replaced.
\<close>

definition the_domain :: "mat_struct \<Rightarrow> int \<Rightarrow> int \<Rightarrow> int" where
  "the_domain m x y =
     (if x < new_size m \<and> y < new_size m then 0
      else if x > new_size m \<and> new_size m > y then 1
      else if x < new_size m \<and> new_size m < y then 2
      else 3)"

definition truth_table :: "int \<Rightarrow> bool list" where
  "truth_table d =
     (if d = 0 then truth_table_0 else if d = 1 then truth_table_1
      else if d = 2 then truth_table_2 else truth_table_3)"

definition set_true_table :: "int \<Rightarrow> int list" where
  "set_true_table d =
     (if d = 0 then set_true_table_0 else if d = 1 then set_true_table_1
      else if d = 2 then set_true_table_2 else set_true_table_3)"

definition set_false_table :: "int \<Rightarrow> int list" where
  "set_false_table d =
     (if d = 0 then set_false_table_0 else if d = 1 then set_false_table_1
      else if d = 2 then set_false_table_2 else set_false_table_3)"

definition slot :: "mat_struct \<Rightarrow> int \<Rightarrow> nat" where
  "slot m x = nat (x mod new_size m)"

definition packed :: "mat_struct \<Rightarrow> int \<Rightarrow> int \<Rightarrow> int" where
  "packed m x y = matrix m ! slot m x ! slot m y"

definition put :: "mat_struct \<Rightarrow> nat \<Rightarrow> nat \<Rightarrow> int \<Rightarrow> mat_struct" where
  "put m i j v = m\<lparr>matrix := (matrix m)[i := (matrix m ! i)[j := v]]\<rparr>"

section \<open>The tables\<close>

text \<open>
  All sixteen packed values and all four domains, checked by evaluation: every table has
  sixteen entries from 0 to 15, the entry of a set-true table decodes to true and that of a
  set-false table to false in the same domain, and neither changes what the other three
  domains decode.
\<close>

lemma tables_checked:
  "list_all (\<lambda>d. list_all (\<lambda>v.
      length (truth_table d) = 16 \<and> length (set_true_table d) = 16 \<and>
      length (set_false_table d) = 16 \<and>
      0 \<le> set_true_table d ! nat v \<and> set_true_table d ! nat v \<le> 15 \<and>
      0 \<le> set_false_table d ! nat v \<and> set_false_table d ! nat v \<le> 15 \<and>
      truth_table d ! nat (set_true_table d ! nat v) \<and>
      \<not> truth_table d ! nat (set_false_table d ! nat v) \<and>
      list_all (\<lambda>d'. d' = d \<or>
         (truth_table d' ! nat (set_true_table d ! nat v) = truth_table d' ! nat v \<and>
          truth_table d' ! nat (set_false_table d ! nat v) = truth_table d' ! nat v)) [0..3])
     [0..15]) [0..3]"
  by code_simp

section \<open>Indexing, the invariant and single writes\<close>

lemma item_wrap:
  assumes "- int (length xs) \<le> i" and "i < int (length xs)"
  shows "item xs i = Inr (xs ! nat (i mod int (length xs)))"
proof (cases "0 \<le> i")
  case True
  with assms show ?thesis by (simp add: item_def)
next
  case False
  with assms have "0 \<le> i + int (length xs)" and "i + int (length xs) < int (length xs)"
    by simp_all
  then have "(i + int (length xs)) mod int (length xs) = i + int (length xs)"
    by (rule mod_pos_pos_trivial)
  then have "i mod int (length xs) = i + int (length xs)"
    by simp
  with False assms show ?thesis by (simp add: item_def)
qed

lemma setitem_wrap:
  assumes "- int (length xs) \<le> i" and "i < int (length xs)"
  shows "setitem xs i v = Inr (xs[nat (i mod int (length xs)) := v])"
proof (cases "0 \<le> i")
  case True
  with assms show ?thesis by (simp add: setitem_def)
next
  case False
  with assms have "0 \<le> i + int (length xs)" and "i + int (length xs) < int (length xs)"
    by simp_all
  then have "(i + int (length xs)) mod int (length xs) = i + int (length xs)"
    by (rule mod_pos_pos_trivial)
  then have "i mod int (length xs) = i + int (length xs)"
    by simp
  with False assms show ?thesis by (simp add: setitem_def)
qed

lemma item_refused:
  "i < - int (length xs) \<or> int (length xs) \<le> i \<Longrightarrow> item xs i = Inl IndexError"
  by (auto simp: item_def)

lemma setitem_refused:
  "i < - int (length xs) \<or> int (length xs) \<le> i \<Longrightarrow> setitem xs i v = Inl IndexError"
  by (auto simp: setitem_def)

lemma invar_length: "invar m \<Longrightarrow> int (length (matrix m)) = new_size m"
  by (simp add: invar_def)

lemma invar_row_length:
  "invar m \<Longrightarrow> i < nat (new_size m) \<Longrightarrow> int (length (matrix m ! i)) = new_size m"
  by (simp add: invar_def list_all_length)

lemma invar_value:
  "invar m \<Longrightarrow> i < nat (new_size m) \<Longrightarrow> j < nat (new_size m)
   \<Longrightarrow> 0 \<le> matrix m ! i ! j \<and> matrix m ! i ! j \<le> 15"
  by (simp add: invar_def list_all_length)

lemma invar_sizes: "invar m \<Longrightarrow> og_size m \<le> 2 * new_size m \<and> 0 \<le> new_size m"
  unfolding invar_def by linarith

lemma slot_less: "- new_size m \<le> a \<Longrightarrow> a < new_size m \<Longrightarrow> slot m a < nat (new_size m)"
  unfolding slot_def by (smt (verit) pos_mod_bound nat_less_iff pos_mod_sign nat_mono_iff)

lemma read_cell_wrap:
  assumes "invar m" and "- new_size m \<le> a" and "a < new_size m"
    and "- new_size m \<le> b" and "b < new_size m"
  shows "read_cell m a b = Inr (matrix m ! slot m a ! slot m b)"
proof -
  have row: "item (matrix m) a = Inr (matrix m ! slot m a)"
    using item_wrap [of "matrix m" a] assms by (simp add: invar_length slot_def)
  have "int (length (matrix m ! slot m a)) = new_size m"
    using assms by (simp add: invar_row_length slot_less)
  then have "item (matrix m ! slot m a) b = Inr (matrix m ! slot m a ! slot m b)"
    using item_wrap [of "matrix m ! slot m a" b] assms by (simp add: slot_def)
  with row show ?thesis by (simp add: read_cell_def)
qed

lemma write_cell_wrap:
  assumes "invar m" and "- new_size m \<le> a" and "a < new_size m"
    and "- new_size m \<le> b" and "b < new_size m"
  shows "write_cell m a b v = (Inr (), put m (slot m a) (slot m b) v)"
proof -
  have row: "item (matrix m) a = Inr (matrix m ! slot m a)"
    using item_wrap [of "matrix m" a] assms by (simp add: invar_length slot_def)
  have "int (length (matrix m ! slot m a)) = new_size m"
    using assms by (simp add: invar_row_length slot_less)
  then have upd: "setitem (matrix m ! slot m a) b v = Inr ((matrix m ! slot m a)[slot m b := v])"
    using setitem_wrap [of "matrix m ! slot m a" b v] assms by (simp add: slot_def)
  have "setitem (matrix m) a r = Inr ((matrix m)[slot m a := r])" for r
    using setitem_wrap [of "matrix m" a r] assms by (simp add: invar_length slot_def)
  with row upd show ?thesis by (simp add: write_cell_def put_def)
qed

lemma write_cell_cases:
  assumes "invar m"
  shows "write_cell m a b v = (Inl IndexError, m) \<or>
         (\<exists>i j. i < nat (new_size m) \<and> j < nat (new_size m) \<and>
                write_cell m a b v = (Inr (), put m i j v))"
proof (cases "- new_size m \<le> a \<and> a < new_size m")
  case False
  then have "item (matrix m) a = Inl IndexError"
    using assms item_refused [of a "matrix m"] by (auto simp: invar_length)
  then show ?thesis by (simp add: write_cell_def)
next
  case a: True
  show ?thesis
  proof (cases "- new_size m \<le> b \<and> b < new_size m")
    case True
    with a assms show ?thesis
      using write_cell_wrap [of m a b v] slot_less [of m a] slot_less [of m b] by blast
  next
    case False
    have row: "item (matrix m) a = Inr (matrix m ! slot m a)"
      using item_wrap [of "matrix m" a] assms a by (simp add: invar_length slot_def)
    have "int (length (matrix m ! slot m a)) = new_size m"
      using assms a by (simp add: invar_row_length slot_less)
    with False have "setitem (matrix m ! slot m a) b v = Inl IndexError"
      using setitem_refused [of b "matrix m ! slot m a" v] by auto
    with row show ?thesis by (simp add: write_cell_def)
  qed
qed

lemma put_sizes [simp]: "og_size (put m i j v) = og_size m" "new_size (put m i j v) = new_size m"
  by (simp_all add: put_def)

lemma list_all_update: "list_all P xs \<Longrightarrow> P v \<Longrightarrow> list_all P (xs[j := v])"
  using set_update_subset_insert [of xs j v] by (auto simp: list_all_iff)

lemma rows_update:
  assumes "list_all (\<lambda>row. length row = k \<and> list_all P row) rows" and "P v"
  shows "list_all (\<lambda>row. length row = k \<and> list_all P row) (rows[i := (rows ! i)[j := v]])"
proof (cases "i < length rows")
  case True
  with assms(1) have "length (rows ! i) = k \<and> list_all P (rows ! i)"
    by (simp add: list_all_length)
  with assms(2) have "length ((rows ! i)[j := v]) = k \<and> list_all P ((rows ! i)[j := v])"
    by (simp add: list_all_update)
  with assms(1) show ?thesis
    by (rule list_all_update)
next
  case False
  then have "rows[i := (rows ! i)[j := v]] = rows"
    by (simp add: list_update_beyond)
  with assms(1) show ?thesis by simp
qed

lemma invar_put:
  assumes "invar m" and "0 \<le> v" and "v \<le> 15"
  shows "invar (put m i j v)"
proof -
  from assms(1)
  have "list_all (\<lambda>row. length row = nat (new_size m) \<and> list_all (\<lambda>v. 0 \<le> v \<and> v \<le> 15) row)
          (matrix m)"
    by (simp add: invar_def)
  with assms(2,3)
  have "list_all (\<lambda>row. length row = nat (new_size m) \<and> list_all (\<lambda>v. 0 \<le> v \<and> v \<le> 15) row)
          ((matrix m)[i := (matrix m ! i)[j := v]])"
    by (intro rows_update) simp_all
  with assms(1) show ?thesis
    by (simp add: invar_def put_def)
qed

lemma put_same:
  assumes "invar m" and "i < nat (new_size m)" and "j < nat (new_size m)"
  shows "matrix (put m i j v) ! i ! j = v"
proof -
  have "i < length (matrix m)" and "j < length (matrix m ! i)"
    using assms invar_length [of m] invar_row_length [of m i] by simp_all
  then show ?thesis by (simp add: put_def)
qed

section \<open>What the methods do at a coordinate inside the matrix\<close>

text \<open>
  For \<open>0 \<le> x, y < og_size\<close> every method reaches the packed value at
  \<open>(x mod new_size, y mod new_size)\<close>, whichever domain \<open>__get_domain\<close> has chosen and
  whether or not Python had to wrap a negative index, and uses the table of that domain.
\<close>

lemma tables_all:
  assumes "0 \<le> d" and "d \<le> 3" and "0 \<le> v" and "v \<le> 15"
  shows "length (truth_table d) = 16 \<and> length (set_true_table d) = 16 \<and>
      length (set_false_table d) = 16 \<and>
      0 \<le> set_true_table d ! nat v \<and> set_true_table d ! nat v \<le> 15 \<and>
      0 \<le> set_false_table d ! nat v \<and> set_false_table d ! nat v \<le> 15 \<and>
      truth_table d ! nat (set_true_table d ! nat v) \<and>
      \<not> truth_table d ! nat (set_false_table d ! nat v)"
proof -
  from assms have "d \<in> set [0..3]" and "v \<in> set [0..15]"
    by simp_all
  with tables_checked show ?thesis
    unfolding list_all_iff by blast
qed

lemma tables_other:
  assumes "0 \<le> d" and "d \<le> 3" and "0 \<le> v" and "v \<le> 15"
    and "0 \<le> d'" and "d' \<le> 3" and "d' \<noteq> d"
  shows "truth_table d' ! nat (set_true_table d ! nat v) = truth_table d' ! nat v \<and>
         truth_table d' ! nat (set_false_table d ! nat v) = truth_table d' ! nat v"
proof -
  from assms have "d \<in> set [0..3]" and "v \<in> set [0..15]" and "d' \<in> set [0..3]"
    by simp_all
  with tables_checked assms(7) show ?thesis
    unfolding list_all_iff by blast
qed

lemma item_table:
  "length tbl = 16 \<Longrightarrow> 0 \<le> v \<Longrightarrow> v \<le> 15 \<Longrightarrow> item tbl v = Inr (tbl ! nat v)"
  by (simp add: item_def)

lemma the_domain_range: "0 \<le> the_domain m x y \<and> the_domain m x y \<le> 3"
  by (simp add: the_domain_def)

lemma get_domain_valid:
  "x < og_size m \<Longrightarrow> y < og_size m \<Longrightarrow> get_domain m x y = Inr (the_domain m x y)"
  by (simp add: get_domain_def the_domain_def Let_def)

lemma get_domain_refuses:
  "og_size m \<le> x \<or> og_size m \<le> y \<Longrightarrow> get_domain m x y = Inl OutOfBound"
  by (auto simp: get_domain_def Let_def)

lemma get_branches:
  "get m x y =
     (case get_domain m x y of
        Inl e \<Rightarrow> Inl e
      | Inr d \<Rightarrow>
          lookup_truth
            (read_cell m (if d = 0 \<or> d = 2 then x else x - new_size m)
                         (if d = 0 \<or> d = 1 then y else y - new_size m))
            (truth_table d))"
  by (simp add: get_def get_compact_val_def truth_table_def Let_def split: sum.splits)

lemma set_true_branches:
  "set_true m x y =
     (case get_domain m x y of
        Inl e \<Rightarrow> (Inl e, m)
      | Inr d \<Rightarrow>
          lookup_store m
            (read_cell m (if d = 0 \<or> d = 2 then x else x - new_size m)
                         (if d = 0 \<or> d = 1 then y else y - new_size m))
            (set_true_table d)
            (if d = 0 \<or> d = 2 then x else x - new_size m)
            (if d = 0 \<or> d = 1 then y else y - new_size m))"
  by (simp add: set_true_def get_compact_val_def set_true_table_def Let_def split: sum.splits)

lemma set_false_branches:
  "set_false m x y =
     (case get_domain m x y of
        Inl e \<Rightarrow> (Inl e, m)
      | Inr d \<Rightarrow>
          lookup_store m
            (read_cell m (if d = 0 \<or> d = 2 then x else x - new_size m)
                         (if d = 0 \<or> d = 1 then y else y - new_size m))
            (set_false_table d)
            (if d = 0 \<or> d = 2 then x else x - new_size m)
            (if d = 0 \<or> d = 1 then y else y - new_size m))"
  by (simp add: set_false_def get_compact_val_def set_false_table_def Let_def split: sum.splits)

lemma slot_minus [simp]: "slot m (x - new_size m) = slot m x"
  by (simp add: slot_def)

lemma row_index:
  assumes "invar m" and "0 \<le> x" and "x < og_size m" and "0 \<le> y" and "y < og_size m"
  shows "- new_size m \<le> (if the_domain m x y = 0 \<or> the_domain m x y = 2 then x else x - new_size m)
       \<and> (if the_domain m x y = 0 \<or> the_domain m x y = 2 then x else x - new_size m) < new_size m
       \<and> slot m (if the_domain m x y = 0 \<or> the_domain m x y = 2 then x else x - new_size m) = slot m x"
  using assms invar_sizes [of m] by (auto simp: the_domain_def)

lemma col_index:
  assumes "invar m" and "0 \<le> x" and "x < og_size m" and "0 \<le> y" and "y < og_size m"
  shows "- new_size m \<le> (if the_domain m x y = 0 \<or> the_domain m x y = 1 then y else y - new_size m)
       \<and> (if the_domain m x y = 0 \<or> the_domain m x y = 1 then y else y - new_size m) < new_size m
       \<and> slot m (if the_domain m x y = 0 \<or> the_domain m x y = 1 then y else y - new_size m) = slot m y"
  using assms invar_sizes [of m] by (auto simp: the_domain_def)

lemma slot_valid:
  assumes "invar m" and "0 \<le> x" and "x < og_size m"
  shows "slot m x < nat (new_size m)"
proof -
  from assms invar_sizes [of m] have "0 < new_size m" by simp
  then have "0 \<le> x mod new_size m" and "x mod new_size m < new_size m" by simp_all
  then show ?thesis by (simp add: slot_def)
qed

lemma packed_range:
  assumes "invar m" and "0 \<le> x" and "x < og_size m" and "0 \<le> y" and "y < og_size m"
  shows "0 \<le> packed m x y \<and> packed m x y \<le> 15"
  unfolding packed_def using assms by (intro invar_value slot_valid)

lemma read_valid:
  assumes "invar m" and "0 \<le> x" and "x < og_size m" and "0 \<le> y" and "y < og_size m"
  shows "read_cell m (if the_domain m x y = 0 \<or> the_domain m x y = 2 then x else x - new_size m)
           (if the_domain m x y = 0 \<or> the_domain m x y = 1 then y else y - new_size m)
         = Inr (packed m x y)"
  using row_index [OF assms] col_index [OF assms] assms(1)
  by (simp add: read_cell_wrap packed_def)

lemma write_valid:
  assumes "invar m" and "0 \<le> x" and "x < og_size m" and "0 \<le> y" and "y < og_size m"
  shows "write_cell m (if the_domain m x y = 0 \<or> the_domain m x y = 2 then x else x - new_size m)
           (if the_domain m x y = 0 \<or> the_domain m x y = 1 then y else y - new_size m) w
         = (Inr (), put m (slot m x) (slot m y) w)"
  using row_index [OF assms] col_index [OF assms] assms(1)
  by (simp add: write_cell_wrap)

lemma get_valid:
  assumes "invar m" and "0 \<le> x" and "x < og_size m" and "0 \<le> y" and "y < og_size m"
  shows "get m x y = Inr (truth_table (the_domain m x y) ! nat (packed m x y))"
proof -
  have "item (truth_table (the_domain m x y)) (packed m x y)
        = Inr (truth_table (the_domain m x y) ! nat (packed m x y))"
    using packed_range [OF assms] the_domain_range [of m x y]
      tables_all [of "the_domain m x y" "packed m x y"]
    by (intro item_table) simp_all
  then show ?thesis
    using assms by (simp add: get_branches get_domain_valid read_valid lookup_truth_def)
qed

lemma set_true_valid:
  assumes "invar m" and "0 \<le> x" and "x < og_size m" and "0 \<le> y" and "y < og_size m"
  shows "set_true m x y =
    (Inr (), put m (slot m x) (slot m y) (set_true_table (the_domain m x y) ! nat (packed m x y)))"
proof -
  have "item (set_true_table (the_domain m x y)) (packed m x y)
        = Inr (set_true_table (the_domain m x y) ! nat (packed m x y))"
    using packed_range [OF assms] the_domain_range [of m x y]
      tables_all [of "the_domain m x y" "packed m x y"]
    by (intro item_table) simp_all
  then show ?thesis
    using assms
    by (simp add: set_true_branches get_domain_valid read_valid write_valid lookup_store_def)
qed

lemma set_false_valid:
  assumes "invar m" and "0 \<le> x" and "x < og_size m" and "0 \<le> y" and "y < og_size m"
  shows "set_false m x y =
    (Inr (), put m (slot m x) (slot m y) (set_false_table (the_domain m x y) ! nat (packed m x y)))"
proof -
  have "item (set_false_table (the_domain m x y)) (packed m x y)
        = Inr (set_false_table (the_domain m x y) ! nat (packed m x y))"
    using packed_range [OF assms] the_domain_range [of m x y]
      tables_all [of "the_domain m x y" "packed m x y"]
    by (intro item_table) simp_all
  then show ?thesis
    using assms
    by (simp add: set_false_branches get_domain_valid read_valid write_valid lookup_store_def)
qed

lemma the_domain_put [simp]: "the_domain (put m i j v) x y = the_domain m x y"
  by (simp add: the_domain_def)

lemma slot_put [simp]: "slot (put m i j v) x = slot m x"
  by (simp add: slot_def)

lemma packed_put_same:
  assumes "invar m" and "0 \<le> x" and "x < og_size m" and "0 \<le> y" and "y < og_size m"
  shows "packed (put m (slot m x) (slot m y) v) x y = v"
  using assms by (simp add: packed_def put_same slot_valid)

lemma get_after_put:
  assumes "invar m" and "0 \<le> x" and "x < og_size m" and "0 \<le> y" and "y < og_size m"
    and "0 \<le> v" and "v \<le> 15"
  shows "get (put m (slot m x) (slot m y) v) x y = Inr (truth_table (the_domain m x y) ! nat v)"
proof -
  have "invar (put m (slot m x) (slot m y) v)"
    using assms by (simp add: invar_put)
  then have "get (put m (slot m x) (slot m y) v) x y
    = Inr (truth_table (the_domain (put m (slot m x) (slot m y) v) x y)
             ! nat (packed (put m (slot m x) (slot m y) v) x y))"
    using assms by (intro get_valid) simp_all
  then show ?thesis
    using assms by (simp add: packed_put_same)
qed

lemma invar_sizes_lower: "invar m \<Longrightarrow> 2 * new_size m \<le> og_size m + 1"
  unfolding invar_def by linarith

lemma set_true_entry:
  assumes "invar m" and "0 \<le> x" and "x < og_size m" and "0 \<le> y" and "y < og_size m"
  shows "0 \<le> set_true_table (the_domain m x y) ! nat (packed m x y) \<and>
         set_true_table (the_domain m x y) ! nat (packed m x y) \<le> 15 \<and>
         truth_table (the_domain m x y)
           ! nat (set_true_table (the_domain m x y) ! nat (packed m x y))"
  using packed_range [OF assms] the_domain_range [of m x y]
    tables_all [of "the_domain m x y" "packed m x y"]
  by simp

lemma set_false_entry:
  assumes "invar m" and "0 \<le> x" and "x < og_size m" and "0 \<le> y" and "y < og_size m"
  shows "0 \<le> set_false_table (the_domain m x y) ! nat (packed m x y) \<and>
         set_false_table (the_domain m x y) ! nat (packed m x y) \<le> 15 \<and>
         \<not> truth_table (the_domain m x y)
           ! nat (set_false_table (the_domain m x y) ! nat (packed m x y))"
  using packed_range [OF assms] the_domain_range [of m x y]
    tables_all [of "the_domain m x y" "packed m x y"]
  by simp

lemma get_after_set_true:
  assumes "invar m" and "0 \<le> x" and "x < og_size m" and "0 \<le> y" and "y < og_size m"
  shows "get (snd (set_true m x y)) x y = Inr True"
  using set_true_entry [OF assms] assms
  by (simp add: set_true_valid get_after_put)

lemma get_after_set_false:
  assumes "invar m" and "0 \<le> x" and "x < og_size m" and "0 \<le> y" and "y < og_size m"
  shows "get (snd (set_false m x y)) x y = Inr False"
  using set_false_entry [OF assms] assms
  by (simp add: set_false_valid get_after_put)

lemma invar_set_true:
  assumes "invar m" and "0 \<le> x" and "x < og_size m" and "0 \<le> y" and "y < og_size m"
  shows "invar (snd (set_true m x y)) \<and> og_size (snd (set_true m x y)) = og_size m"
  using set_true_entry [OF assms] assms
  by (simp add: set_true_valid invar_put)

lemma invar_set_false:
  assumes "invar m" and "0 \<le> x" and "x < og_size m" and "0 \<le> y" and "y < og_size m"
  shows "invar (snd (set_false m x y)) \<and> og_size (snd (set_false m x y)) = og_size m"
  using set_false_entry [OF assms] assms
  by (simp add: set_false_valid invar_put)

lemma switch_valid:
  assumes "invar m" and "0 \<le> x" and "x < og_size m" and "0 \<le> y" and "y < og_size m"
  shows "fst (switch m x y) = Inr () \<and> invar (snd (switch m x y)) \<and>
         og_size (snd (switch m x y)) = og_size m \<and>
         get (snd (switch m x y)) x y
           = Inr (\<not> truth_table (the_domain m x y) ! nat (packed m x y))"
proof (cases "truth_table (the_domain m x y) ! nat (packed m x y)")
  case True
  then have "switch m x y = set_false m x y"
    using assms by (simp add: switch_def get_valid)
  with True show ?thesis
    using invar_set_false [OF assms] get_after_set_false [OF assms] assms
    by (simp add: set_false_valid)
next
  case False
  then have "switch m x y = set_true m x y"
    using assms by (simp add: switch_def get_valid)
  with False show ?thesis
    using invar_set_true [OF assms] get_after_set_true [OF assms] assms
    by (simp add: set_true_valid)
qed

section \<open>The loops of the bulk fill\<close>

lemma for_each_append:
  "for_each (xs @ ys) body m =
     (case for_each xs body m of
        (Inl e, m') \<Rightarrow> (Inl e, m')
      | (Inr u, m') \<Rightarrow> for_each ys body m')"
  by (induction xs arbitrary: m) (auto split: prod.splits sum.splits)

lemma py_range_Suc: "py_range (1 + int k) = py_range (int k) @ [int k]"
proof -
  have "nat (1 + int k) = Suc k" by simp
  then show ?thesis by (simp add: py_range_def)
qed

lemma py_range_0: "py_range 0 = []"
  by (simp add: py_range_def)

lemma write_cell_nat:
  "i < length (matrix m) \<Longrightarrow> j < length (matrix m ! i)
   \<Longrightarrow> write_cell m (int i) (int j) v = (Inr (), put m i j v)"
  by (simp add: write_cell_def item_def setitem_def put_def)

lemma fill_step:
  assumes "k < length xs"
  shows "(replicate k v @ drop k xs)[k := v] = replicate (Suc k) v @ drop (Suc k) xs"
proof -
  have d: "drop k xs = xs ! k # drop (Suc k) xs"
    using assms by (simp add: Cons_nth_drop_Suc)
  have "(replicate k v @ drop k xs)[k := v] = replicate k v @ (drop k xs)[0 := v]"
    by (simp add: list_update_append)
  also have "\<dots> = replicate k v @ v # drop (Suc k) xs"
    by (subst d) simp
  also have "\<dots> = replicate (Suc k) v @ drop (Suc k) xs"
    by (simp add: replicate_app_Cons_same)
  finally show ?thesis .
qed

lemma inner_loop:
  assumes "i < length (matrix m)" and "k \<le> length (matrix m ! i)"
  shows "for_each (py_range (int k)) (\<lambda>j m'. write_cell m' (int i) j v) m
         = (Inr (), m\<lparr>matrix := (matrix m)[i := replicate k v @ drop k (matrix m ! i)]\<rparr>)"
  using assms(2)
proof (induction k)
  case 0
  then show ?case by (simp add: py_range_0)
next
  case (Suc k)
  let ?m1 = "m\<lparr>matrix := (matrix m)[i := replicate k v @ drop k (matrix m ! i)]\<rparr>"
  from Suc have loop: "for_each (py_range (int k)) (\<lambda>j m'. write_cell m' (int i) j v) m
      = (Inr (), ?m1)"
    by simp
  have "write_cell ?m1 (int i) (int k) v = (Inr (), put ?m1 i k v)"
    using assms(1) Suc.prems by (intro write_cell_nat) simp_all
  also have "put ?m1 i k v
      = m\<lparr>matrix := (matrix m)[i := replicate (Suc k) v @ drop (Suc k) (matrix m ! i)]\<rparr>"
    using assms(1) Suc.prems fill_step [of k "matrix m ! i" v]
    by (simp add: put_def)
  finally show ?case
    using loop by (simp add: py_range_Suc for_each_append del: replicate_Suc)
qed

lemma outer_loop:
  assumes "\<forall>i < length (matrix m). length (matrix m ! i) = n" and "k \<le> length (matrix m)"
  shows "for_each (py_range (int k))
           (\<lambda>i. for_each (py_range (int n)) (\<lambda>j m'. write_cell m' i j v)) m
         = (Inr (), m\<lparr>matrix := replicate k (replicate n v) @ drop k (matrix m)\<rparr>)"
  using assms(2)
proof (induction k)
  case 0
  then show ?case by (simp add: py_range_0)
next
  case (Suc k)
  let ?m1 = "m\<lparr>matrix := replicate k (replicate n v) @ drop k (matrix m)\<rparr>"
  from Suc have loop: "for_each (py_range (int k))
      (\<lambda>i. for_each (py_range (int n)) (\<lambda>j m'. write_cell m' i j v)) m = (Inr (), ?m1)"
    by simp
  have row: "matrix ?m1 ! k = matrix m ! k"
    using Suc.prems by (simp add: nth_append)
  have len: "length (matrix m ! k) = n"
    using assms(1) Suc.prems by simp
  have "for_each (py_range (int n)) (\<lambda>j m'. write_cell m' (int k) j v) ?m1
      = (Inr (), ?m1\<lparr>matrix := (matrix ?m1)[k := replicate n v @ drop n (matrix ?m1 ! k)]\<rparr>)"
    using Suc.prems row len by (intro inner_loop) simp_all
  also have "(matrix ?m1)[k := replicate n v @ drop n (matrix ?m1 ! k)]
      = replicate (Suc k) (replicate n v) @ drop (Suc k) (matrix m)"
    using Suc.prems len fill_step [of k "matrix m" "replicate n v"] row
    by simp
  finally show ?case
    using loop by (simp add: py_range_Suc for_each_append del: replicate_Suc)
qed

lemma fill_all:
  assumes "invar m"
  shows "for_each (py_range (new_size m))
           (\<lambda>i. for_each (py_range (new_size m)) (\<lambda>j m'. write_cell m' i j v)) m
         = (Inr (), m\<lparr>matrix := replicate (nat (new_size m)) (replicate (nat (new_size m)) v)\<rparr>)"
proof -
  have s: "new_size m = int (nat (new_size m))"
    using assms invar_sizes [of m] by simp
  have rows: "\<forall>i < length (matrix m). length (matrix m ! i) = nat (new_size m)"
    using assms by (simp add: invar_def list_all_length)
  have len: "nat (new_size m) \<le> length (matrix m)"
    using assms by (simp add: invar_def)
  have "for_each (py_range (int (nat (new_size m))))
           (\<lambda>i. for_each (py_range (int (nat (new_size m)))) (\<lambda>j m'. write_cell m' i j v)) m
      = (Inr (), m\<lparr>matrix := replicate (nat (new_size m)) (replicate (nat (new_size m)) v)
                                @ drop (nat (new_size m)) (matrix m)\<rparr>)"
    using rows len by (rule outer_loop)
  moreover have "drop (nat (new_size m)) (matrix m) = []"
    using assms by (simp add: invar_def)
  ultimately show ?thesis
    using s by simp
qed

lemma invar_filled:
  assumes "invar m" and "0 \<le> v" and "v \<le> 15"
  shows "invar (m\<lparr>matrix := replicate (nat (new_size m)) (replicate (nat (new_size m)) v)\<rparr>)"
  using assms by (simp add: invar_def list_all_length)

lemma get_filled:
  assumes "invar m" and "0 \<le> x" and "x < og_size m" and "0 \<le> y" and "y < og_size m"
    and "0 \<le> v" and "v \<le> 15"
  shows "get (m\<lparr>matrix := replicate (nat (new_size m)) (replicate (nat (new_size m)) v)\<rparr>) x y
         = Inr (truth_table (the_domain m x y) ! nat v)"
proof -
  let ?m1 = "m\<lparr>matrix := replicate (nat (new_size m)) (replicate (nat (new_size m)) v)\<rparr>"
  have inv: "invar ?m1"
    using assms by (simp add: invar_filled)
  have "slot m x < nat (new_size m)" and "slot m y < nat (new_size m)"
    using assms by (simp_all add: slot_valid)
  then have "packed ?m1 x y = v"
    by (simp add: packed_def slot_def)
  moreover have "the_domain ?m1 x y = the_domain m x y"
    by (simp add: the_domain_def)
  moreover have "get ?m1 x y = Inr (truth_table (the_domain ?m1 x y) ! nat (packed ?m1 x y))"
    using inv assms by (intro get_valid) simp_all
  ultimately show ?thesis by simp
qed

lemma truth_table_15: "truth_table d ! nat 15"
  by (simp add: truth_table_def truth_table_0_def truth_table_1_def truth_table_2_def
      truth_table_3_def)

lemma truth_table_0: "\<not> truth_table d ! nat 0"
  by (simp add: truth_table_def truth_table_0_def truth_table_1_def truth_table_2_def
      truth_table_3_def)

section \<open>Every call keeps the invariant\<close>

text \<open>
  Whatever the arguments, a call either raises before it writes or stores one entry of a
  table, or 0, or 15, at a position inside the store.
\<close>

lemma item_in_set: "item xs i = Inr w \<Longrightarrow> w \<in> set xs"
  by (auto simp: item_def split: if_splits)

lemma set_true_entries: "list_all (\<lambda>w. 0 \<le> w \<and> w \<le> 15) (set_true_table d)"
  by (simp add: set_true_table_def set_true_table_0_def set_true_table_1_def
      set_true_table_2_def set_true_table_3_def)

lemma set_false_entries: "list_all (\<lambda>w. 0 \<le> w \<and> w \<le> 15) (set_false_table d)"
  by (simp add: set_false_table_def set_false_table_0_def set_false_table_1_def
      set_false_table_2_def set_false_table_3_def)

lemma lookup_store_keeps_invar:
  assumes "invar m" and "list_all (\<lambda>w. 0 \<le> w \<and> w \<le> 15) tbl"
  shows "invar (snd (lookup_store m r tbl a b))"
proof (cases r)
  case (Inl e)
  with assms(1) show ?thesis by (simp add: lookup_store_def)
next
  case (Inr v)
  show ?thesis
  proof (cases "item tbl v")
    case (Inl e)
    with Inr assms(1) show ?thesis by (simp add: lookup_store_def)
  next
    case w: (Inr w)
    then have "w \<in> set tbl" by (rule item_in_set)
    with assms(2) have range: "0 \<le> w" "w \<le> 15"
      by (simp_all add: list_all_iff)
    from write_cell_cases [OF assms(1), of a b w]
    have "invar (snd (write_cell m a b w))"
      using assms(1) range by (auto simp: invar_put)
    with Inr w show ?thesis by (simp add: lookup_store_def)
  qed
qed

lemma set_true_keeps_invar: "invar m \<Longrightarrow> invar (snd (set_true m x y))"
  by (simp add: set_true_branches lookup_store_keeps_invar set_true_entries split: sum.splits)

lemma set_false_keeps_invar: "invar m \<Longrightarrow> invar (snd (set_false m x y))"
  by (simp add: set_false_branches lookup_store_keeps_invar set_false_entries split: sum.splits)

lemma switch_keeps_invar: "invar m \<Longrightarrow> invar (snd (switch m x y))"
  by (simp add: switch_def set_true_keeps_invar set_false_keeps_invar split: sum.splits)

lemma all_true_keeps_invar: "invar m \<Longrightarrow> invar (snd (all_true m))"
  by (simp add: all_true_def fill_all invar_filled)

lemma all_false_keeps_invar: "invar m \<Longrightarrow> invar (snd (all_false m))"
  by (simp add: all_false_def fill_all invar_filled)

lemma perform_keeps_invar: "invar m \<Longrightarrow> invar (perform m c)"
  by (cases c)
    (simp_all add: set_true_keeps_invar set_false_keeps_invar switch_keeps_invar
      all_true_keeps_invar all_false_keeps_invar)

lemma perform_all_keeps_invar: "invar m \<Longrightarrow> invar (perform_all m cs)"
  unfolding perform_all_def
  by (induction cs arbitrary: m) (simp_all add: perform_keeps_invar)

lemma init_invar:
  assumes "init sz = Inr m"
  shows "invar m"
proof -
  from assms have "0 \<le> - ((- sz) div 2)"
    and "m = \<lparr>og_size = sz, new_size = - ((- sz) div 2),
          matrix = replicate (nat (- ((- sz) div 2))) (replicate (nat (- ((- sz) div 2))) 0)\<rparr>"
    by (auto simp: init_def Let_def split: if_splits)
  then show ?thesis
    by (simp add: invar_def list_all_length)
qed

section \<open>Coordinates of domain 0, negative ones included\<close>

lemma domain_0_calls:
  assumes "invar m" and "- new_size m \<le> x" and "x < new_size m" and "0 \<le> y" and "y < new_size m"
  shows "get_domain m x y = Inr 0"
    and "get m x y = Inr (truth_table_0 ! nat (matrix m ! slot m x ! slot m y))"
    and "set_true m x y = (Inr (), put m (slot m x) (slot m y)
           (set_true_table_0 ! nat (matrix m ! slot m x ! slot m y)))"
    and "set_false m x y = (Inr (), put m (slot m x) (slot m y)
           (set_false_table_0 ! nat (matrix m ! slot m x ! slot m y)))"
proof -
  have "x < og_size m" and "y < og_size m"
    using assms invar_sizes_lower [of m] by simp_all
  with assms show d: "get_domain m x y = Inr 0"
    by (simp add: get_domain_def)
  have cell: "read_cell m x y = Inr (matrix m ! slot m x ! slot m y)"
    using assms by (intro read_cell_wrap) simp_all
  have "slot m x < nat (new_size m)" and "slot m y < nat (new_size m)"
    using assms by (simp_all add: slot_less)
  with assms(1) have range: "0 \<le> matrix m ! slot m x ! slot m y"
      "matrix m ! slot m x ! slot m y \<le> 15"
    using invar_value [of m "slot m x" "slot m y"] by simp_all
  have len: "length truth_table_0 = 16" "length set_true_table_0 = 16"
      "length set_false_table_0 = 16"
    by (simp_all add: truth_table_0_def set_true_table_0_def set_false_table_0_def)
  show "get m x y = Inr (truth_table_0 ! nat (matrix m ! slot m x ! slot m y))"
    using d cell range len by (simp add: get_def get_compact_val_def lookup_truth_def item_table)
  have store: "write_cell m x y w = (Inr (), put m (slot m x) (slot m y) w)" for w
    using assms by (intro write_cell_wrap) simp_all
  show "set_true m x y = (Inr (), put m (slot m x) (slot m y)
           (set_true_table_0 ! nat (matrix m ! slot m x ! slot m y)))"
    using d cell range len store
    by (simp add: set_true_def get_compact_val_def lookup_store_def item_table)
  show "set_false m x y = (Inr (), put m (slot m x) (slot m y)
           (set_false_table_0 ! nat (matrix m ! slot m x ! slot m y)))"
    using d cell range len store
    by (simp add: set_false_def get_compact_val_def lookup_store_def item_table)
qed

lemma slot_minus_1: "0 < new_size m \<Longrightarrow> slot m (- 1) = slot m (new_size m - 1)"
  by (simp add: slot_def zmod_minus1)

section \<open>The domain of a coordinate\<close>

text \<open>
  Claim C2: a coordinate with \<open>x \<ge> new_size\<close> and \<open>y < new_size\<close> is in domain 1, one with
  \<open>x < new_size\<close> and \<open>y \<ge> new_size\<close> in domain 2. The source compares with \<open>x > s > y\<close> and
  \<open>x < s < y\<close>, so on the row \<open>x = new_size\<close> and on the column \<open>y = new_size\<close> it answers 3:
  for size 5 (\<open>new_size\<close> 3) the coordinates (3, 0) and (0, 3) both get domain 3.
\<close>

theorem get_domain_boundary_size_5:
  "init 5 = Inr \<lparr>og_size = 5, new_size = 3, matrix = [[0, 0, 0], [0, 0, 0], [0, 0, 0]]\<rparr> \<and>
   get_domain \<lparr>og_size = 5, new_size = 3, matrix = [[0, 0, 0], [0, 0, 0], [0, 0, 0]]\<rparr> 3 0
     = Inr 3 \<and>
   get_domain \<lparr>og_size = 5, new_size = 3, matrix = [[0, 0, 0], [0, 0, 0], [0, 0, 0]]\<rparr> 0 3
     = Inr 3"
  by code_simp

section \<open>Cells that share a packed value\<close>

text \<open>
  Claim C1: where all four domains of a packed coordinate are addressable, a write to the
  cell of one domain leaves what \<open>get\<close> returns for the other three unchanged. For size 4
  the packed coordinate (0, 0) holds the cells (0, 0), (2, 0), (0, 2) and (2, 2). The source
  treats (2, 0) as a cell of domain 3 and reaches the packed value through the index
  \<open>0 - 2\<close>, which wraps to 0: \<open>set_true(2, 0)\<close> on the all-false matrix stores 4, and
  \<open>get(2, 2)\<close>, false before, is true afterwards.
\<close>

theorem set_true_2_0_changes_2_2_size_4:
  "init 4 = Inr \<lparr>og_size = 4, new_size = 2, matrix = [[0, 0], [0, 0]]\<rparr> \<and>
   get \<lparr>og_size = 4, new_size = 2, matrix = [[0, 0], [0, 0]]\<rparr> 2 2 = Inr False \<and>
   set_true \<lparr>og_size = 4, new_size = 2, matrix = [[0, 0], [0, 0]]\<rparr> 2 0
     = (Inr (), \<lparr>og_size = 4, new_size = 2, matrix = [[4, 0], [0, 0]]\<rparr>) \<and>
   get \<lparr>og_size = 4, new_size = 2, matrix = [[4, 0], [0, 0]]\<rparr> 2 2 = Inr True"
  by code_simp

section \<open>The example\<close>

text \<open>
  Claim C4: for size 5, after \<open>all_false\<close>, the seven calls of \<open>switch\<close> and the two of
  \<open>set_true\<close> of the example, no call has raised and the dense form is true exactly in row 2
  and in column 2.
\<close>

theorem main_demo_is_plus:
  "main_demo = Inr [[False, False, True, False, False],
                    [False, False, True, False, False],
                    [True, True, True, True, True],
                    [False, False, True, False, False],
                    [False, False, True, False, False]] \<and>
   main_demo = Inr (map (\<lambda>x. map (\<lambda>y. x = 2 \<or> y = 2) [0, 1, 2, 3, 4 :: int]) [0, 1, 2, 3, 4 :: int])"
  by code_simp

section \<open>Construction with a size that is not positive\<close>




section \<open>Writing, then reading\<close>

text \<open>
  Claim C3: in every state with the invariant and at every coordinate with
  \<open>0 \<le> x, y < og_size\<close>, in whichever quadrant, \<open>set_true(x, y)\<close> returns without an
  exception and \<open>get(x, y)\<close> is true right after it; \<open>set_false(x, y)\<close> returns and
  \<open>get(x, y)\<close> is false right after it.
\<close>

theorem set_then_get:
  assumes "invar m" and "0 \<le> x" and "x < og_size m" and "0 \<le> y" and "y < og_size m"
  shows "fst (set_true m x y) = Inr () \<and> get (snd (set_true m x y)) x y = Inr True \<and>
         fst (set_false m x y) = Inr () \<and> get (snd (set_false m x y)) x y = Inr False"
  using get_after_set_true [OF assms] get_after_set_false [OF assms] assms
  by (simp add: set_true_valid set_false_valid)

theorem set_then_get_witness:
  "invar \<lparr>og_size = 5, new_size = 3, matrix = [[0, 0, 7], [0, 0, 5], [7, 6, 1]]\<rparr> \<and>
   get \<lparr>og_size = 5, new_size = 3, matrix = [[0, 0, 7], [0, 0, 5], [7, 6, 1]]\<rparr> 3 2 = Inr True \<and>
   get (snd (set_false \<lparr>og_size = 5, new_size = 3, matrix = [[0, 0, 7], [0, 0, 5], [7, 6, 1]]\<rparr> 3 2))
     3 2 = Inr False \<and>
   get \<lparr>og_size = 5, new_size = 3, matrix = [[0, 0, 7], [0, 0, 5], [7, 6, 1]]\<rparr> 4 0 = Inr False \<and>
   get (snd (set_true \<lparr>og_size = 5, new_size = 3, matrix = [[0, 0, 7], [0, 0, 5], [7, 6, 1]]\<rparr> 4 0))
     4 0 = Inr True"
proof -
  have h: "invar \<lparr>og_size = 5, new_size = 3, matrix = [[0, 0, 7], [0, 0, 5], [7, 6, 1]]\<rparr>"
    by code_simp
  have "get \<lparr>og_size = 5, new_size = 3, matrix = [[0, 0, 7], [0, 0, 5], [7, 6, 1]]\<rparr> 3 2 = Inr True"
    and "get \<lparr>og_size = 5, new_size = 3, matrix = [[0, 0, 7], [0, 0, 5], [7, 6, 1]]\<rparr> 4 0 = Inr False"
    by code_simp+
  then show ?thesis
    using h set_then_get [OF h, of 3 2] set_then_get [OF h, of 4 0] by simp
qed

section \<open>Coordinates beyond the size\<close>

text \<open>
  Claim C6: for every matrix and every coordinate with \<open>x \<ge> og_size\<close> or \<open>y \<ge> og_size\<close>,
  each of \<open>get\<close>, \<open>set_true\<close>, \<open>set_false\<close> and \<open>switch\<close> raises \<open>OutOfBound\<close>, and the
  structure the call leaves is the one it was given.
\<close>

theorem out_of_bound_no_write:
  assumes "og_size m \<le> x \<or> og_size m \<le> y"
  shows "get m x y = Inl OutOfBound \<and> set_true m x y = (Inl OutOfBound, m) \<and>
         set_false m x y = (Inl OutOfBound, m) \<and> switch m x y = (Inl OutOfBound, m)"
  using get_domain_refuses [OF assms]
  by (simp add: get_def set_true_def set_false_def switch_def)

theorem out_of_bound_no_write_witness:
  "get \<lparr>og_size = 5, new_size = 3, matrix = [[0, 0, 7], [0, 0, 5], [7, 6, 1]]\<rparr> 5 2
     = Inl OutOfBound \<and>
   set_true \<lparr>og_size = 5, new_size = 3, matrix = [[0, 0, 7], [0, 0, 5], [7, 6, 1]]\<rparr> 5 2
     = (Inl OutOfBound, \<lparr>og_size = 5, new_size = 3, matrix = [[0, 0, 7], [0, 0, 5], [7, 6, 1]]\<rparr>) \<and>
   set_false \<lparr>og_size = 5, new_size = 3, matrix = [[0, 0, 7], [0, 0, 5], [7, 6, 1]]\<rparr> 1 5
     = (Inl OutOfBound, \<lparr>og_size = 5, new_size = 3, matrix = [[0, 0, 7], [0, 0, 5], [7, 6, 1]]\<rparr>) \<and>
   switch \<lparr>og_size = 5, new_size = 3, matrix = [[0, 0, 7], [0, 0, 5], [7, 6, 1]]\<rparr> (- 1) 9
     = (Inl OutOfBound, \<lparr>og_size = 5, new_size = 3, matrix = [[0, 0, 7], [0, 0, 5], [7, 6, 1]]\<rparr>)"
  using
    out_of_bound_no_write [of "\<lparr>og_size = 5, new_size = 3, matrix = [[0, 0, 7], [0, 0, 5], [7, 6, 1]]\<rparr>" 5 2]
    out_of_bound_no_write [of "\<lparr>og_size = 5, new_size = 3, matrix = [[0, 0, 7], [0, 0, 5], [7, 6, 1]]\<rparr>" 1 5]
    out_of_bound_no_write [of "\<lparr>og_size = 5, new_size = 3, matrix = [[0, 0, 7], [0, 0, 5], [7, 6, 1]]\<rparr>" "- 1" 9]
  by simp

section \<open>Bulk fill\<close>

text \<open>
  Claim C7: in every state with the invariant, \<open>all_true\<close> returns and leaves 15 in every
  packed cell, after which \<open>get(x, y)\<close> is true at every coordinate with
  \<open>0 \<le> x, y < og_size\<close>; \<open>all_false\<close> returns and leaves 0 in every packed cell, after
  which \<open>get(x, y)\<close> is false at every such coordinate.
\<close>

theorem get_after_fill:
  assumes "invar m" and "0 \<le> x" and "x < og_size m" and "0 \<le> y" and "y < og_size m"
  shows "fst (all_true m) = Inr () \<and>
         matrix (snd (all_true m)) = replicate (nat (new_size m)) (replicate (nat (new_size m)) 15) \<and>
         get (snd (all_true m)) x y = Inr True \<and>
         fst (all_false m) = Inr () \<and>
         matrix (snd (all_false m)) = replicate (nat (new_size m)) (replicate (nat (new_size m)) 0) \<and>
         get (snd (all_false m)) x y = Inr False"
proof -
  have "get (snd (all_true m)) x y = Inr True"
    using get_filled [OF assms, of 15] truth_table_15 [of "the_domain m x y"] assms(1)
    by (simp add: all_true_def fill_all)
  moreover have "get (snd (all_false m)) x y = Inr False"
    using get_filled [OF assms, of 0] truth_table_0 [of "the_domain m x y"] assms(1)
    by (simp add: all_false_def fill_all)
  ultimately show ?thesis
    using assms(1) by (simp add: all_true_def all_false_def fill_all)
qed

theorem get_after_fill_witness:
  "invar \<lparr>og_size = 5, new_size = 3, matrix = [[0, 0, 7], [0, 0, 5], [7, 6, 1]]\<rparr> \<and>
   all_true \<lparr>og_size = 5, new_size = 3, matrix = [[0, 0, 7], [0, 0, 5], [7, 6, 1]]\<rparr>
     = (Inr (), \<lparr>og_size = 5, new_size = 3, matrix = [[15, 15, 15], [15, 15, 15], [15, 15, 15]]\<rparr>) \<and>
   get (snd (all_true \<lparr>og_size = 5, new_size = 3, matrix = [[0, 0, 7], [0, 0, 5], [7, 6, 1]]\<rparr>)) 4 3
     = Inr True \<and>
   get (snd (all_false \<lparr>og_size = 5, new_size = 3, matrix = [[0, 0, 7], [0, 0, 5], [7, 6, 1]]\<rparr>)) 4 3
     = Inr False"
proof -
  have h: "invar \<lparr>og_size = 5, new_size = 3, matrix = [[0, 0, 7], [0, 0, 5], [7, 6, 1]]\<rparr>"
    by code_simp
  have "all_true \<lparr>og_size = 5, new_size = 3, matrix = [[0, 0, 7], [0, 0, 5], [7, 6, 1]]\<rparr>
     = (Inr (), \<lparr>og_size = 5, new_size = 3, matrix = [[15, 15, 15], [15, 15, 15], [15, 15, 15]]\<rparr>)"
    by code_simp
  moreover have "replicate 3 (replicate 3 15) = [[15, 15, 15], [15, 15, 15], [15, 15, 15 :: int]]"
    by code_simp
  ultimately show ?thesis
    using h get_after_fill [OF h, of 4 3] by simp
qed

section \<open>Toggling twice\<close>

text \<open>
  Claim C8: in every state with the invariant and at every coordinate with
  \<open>0 \<le> x, y < og_size\<close>, \<open>get(x, y)\<close> returns a boolean \<open>b\<close>; \<open>switch(x, y)\<close> returns and
  \<open>get(x, y)\<close> is then \<open>\<not> b\<close>; a second \<open>switch(x, y)\<close> returns and \<open>get(x, y)\<close> is \<open>b\<close>
  again.
\<close>

theorem switch_twice:
  assumes "invar m" and "0 \<le> x" and "x < og_size m" and "0 \<le> y" and "y < og_size m"
  shows "\<exists>b. get m x y = Inr b \<and>
           fst (switch m x y) = Inr () \<and>
           get (snd (switch m x y)) x y = Inr (\<not> b) \<and>
           fst (switch (snd (switch m x y)) x y) = Inr () \<and>
           get (snd (switch (snd (switch m x y)) x y)) x y = Inr b"
proof -
  note first = switch_valid [OF assms]
  then have inv: "invar (snd (switch m x y))" and og: "og_size (snd (switch m x y)) = og_size m"
    by simp_all
  have valid: "x < og_size (snd (switch m x y))" "y < og_size (snd (switch m x y))"
    using assms og by simp_all
  note second = switch_valid [OF inv assms(2) valid(1) assms(4) valid(2)]
  have "get (snd (switch m x y)) x y
      = Inr (truth_table (the_domain (snd (switch m x y)) x y)
               ! nat (packed (snd (switch m x y)) x y))"
    using inv assms(2) valid(1) assms(4) valid(2) by (rule get_valid)
  with first
  have "truth_table (the_domain (snd (switch m x y)) x y) ! nat (packed (snd (switch m x y)) x y)
      = (\<not> truth_table (the_domain m x y) ! nat (packed m x y))"
    by simp
  with first second show ?thesis
    using assms by (simp add: get_valid)
qed

theorem switch_twice_witness:
  "invar \<lparr>og_size = 5, new_size = 3, matrix = [[0, 0, 7], [0, 0, 5], [7, 6, 1]]\<rparr> \<and>
   get \<lparr>og_size = 5, new_size = 3, matrix = [[0, 0, 7], [0, 0, 5], [7, 6, 1]]\<rparr> 2 3 = Inr True \<and>
   get (snd (switch \<lparr>og_size = 5, new_size = 3, matrix = [[0, 0, 7], [0, 0, 5], [7, 6, 1]]\<rparr> 2 3)) 2 3 = Inr False \<and>
   get (snd (switch (snd (switch \<lparr>og_size = 5, new_size = 3, matrix = [[0, 0, 7], [0, 0, 5], [7, 6, 1]]\<rparr> 2 3)) 2 3)) 2 3 = Inr True"
proof -
  have h: "invar \<lparr>og_size = 5, new_size = 3, matrix = [[0, 0, 7], [0, 0, 5], [7, 6, 1]]\<rparr>"
    by code_simp
  have g: "get \<lparr>og_size = 5, new_size = 3, matrix = [[0, 0, 7], [0, 0, 5], [7, 6, 1]]\<rparr> 2 3 = Inr True"
    by code_simp
  show ?thesis
    using h g switch_twice [OF h, of 2 3] by auto
qed

section \<open>The range of the packed values\<close>

text \<open>
  Claim C9: in every matrix reached from a successful construction by any list of calls of
  \<open>set_true\<close>, \<open>set_false\<close>, \<open>switch\<close>, \<open>all_false\<close> and \<open>all_true\<close>, with any integer
  arguments and whether or not a call raised, every value in the packed store is from 0 to
  15.
\<close>

theorem packed_values_in_range:
  assumes "init sz = Inr m0"
  shows "\<forall>row \<in> set (matrix (perform_all m0 cs)). \<forall>v \<in> set row. 0 \<le> v \<and> v \<le> 15"
proof -
  have "invar (perform_all m0 cs)"
    using assms by (intro perform_all_keeps_invar init_invar)
  then show ?thesis
    by (simp add: invar_def list_all_iff)
qed

theorem packed_values_in_range_witness:
  "init 5 = Inr \<lparr>og_size = 5, new_size = 3, matrix = [[0, 0, 0], [0, 0, 0], [0, 0, 0]]\<rparr> \<and>
   list_all (list_all (\<lambda>v. 0 \<le> v \<and> v \<le> 15))
     (matrix (perform_all
        \<lparr>og_size = 5, new_size = 3, matrix = [[0, 0, 0], [0, 0, 0], [0, 0, 0]]\<rparr>
        [Set_true 2 0, Switch 3 2, Set_false (- 1) 0, Switch 7 7, Set_true 4 4, Switch (- 1) 3,
         All_true, Set_false 3 0]))"
proof -
  have h: "init 5 = Inr \<lparr>og_size = 5, new_size = 3, matrix = [[0, 0, 0], [0, 0, 0], [0, 0, 0]]\<rparr>"
    by code_simp
  show ?thesis
    using h packed_values_in_range [OF h] unfolding list_all_iff by blast
qed

section \<open>Negative coordinates\<close>

text \<open>
  Claim C10: \<open>__get_domain\<close> raises \<open>OutOfBound\<close> exactly for a coordinate with
  \<open>x \<ge> og_size\<close> or \<open>y \<ge> og_size\<close>, so a negative coordinate passes. In every matrix
  with the invariant and a positive \<open>og_size\<close>, for \<open>x = -1\<close> and \<open>0 \<le> y < new_size\<close>,
  \<open>get\<close>, \<open>set_true\<close>, \<open>set_false\<close> and \<open>switch\<close> return without an exception and read or
  write the packed value at row \<open>new_size - 1\<close>, in domain 0: each does exactly what the
  same call does at the cell \<open>(new_size - 1, y)\<close>.
\<close>

theorem negative_row_index_wraps:
  assumes "invar m" and "0 < og_size m" and "0 \<le> y" and "y < new_size m"
  shows "(get_domain m x' y' = Inl OutOfBound) = (og_size m \<le> x' \<or> og_size m \<le> y') \<and>
         get_domain m (- 1) y = Inr 0 \<and>
         get m (- 1) y = Inr (truth_table_0 ! nat (matrix m ! nat (new_size m - 1) ! nat y)) \<and>
         get m (- 1) y = get m (new_size m - 1) y \<and>
         set_true m (- 1) y = (Inr (), put m (nat (new_size m - 1)) (nat y)
           (set_true_table_0 ! nat (matrix m ! nat (new_size m - 1) ! nat y))) \<and>
         set_true m (- 1) y = set_true m (new_size m - 1) y \<and>
         set_false m (- 1) y = (Inr (), put m (nat (new_size m - 1)) (nat y)
           (set_false_table_0 ! nat (matrix m ! nat (new_size m - 1) ! nat y))) \<and>
         set_false m (- 1) y = set_false m (new_size m - 1) y \<and>
         fst (switch m (- 1) y) = Inr () \<and>
         switch m (- 1) y = switch m (new_size m - 1) y"
proof -
  have s: "0 < new_size m"
    using assms by simp
  have check: "(get_domain m x' y' = Inl OutOfBound) = (og_size m \<le> x' \<or> og_size m \<le> y')"
    by (auto simp: get_domain_def Let_def)
  have sl: "slot m (- 1) = nat (new_size m - 1)" "slot m (new_size m - 1) = nat (new_size m - 1)"
      "slot m y = nat y"
    using s assms by (simp_all add: slot_def zmod_minus1)
  note neg = domain_0_calls [of m "- 1" y] and last = domain_0_calls [of m "new_size m - 1" y]
  have n: "get_domain m (- 1) y = Inr 0"
      "get m (- 1) y = Inr (truth_table_0 ! nat (matrix m ! nat (new_size m - 1) ! nat y))"
      "set_true m (- 1) y = (Inr (), put m (nat (new_size m - 1)) (nat y)
           (set_true_table_0 ! nat (matrix m ! nat (new_size m - 1) ! nat y)))"
      "set_false m (- 1) y = (Inr (), put m (nat (new_size m - 1)) (nat y)
           (set_false_table_0 ! nat (matrix m ! nat (new_size m - 1) ! nat y)))"
    using neg assms s by (simp_all add: sl)
  have l: "get m (new_size m - 1) y = Inr (truth_table_0 ! nat (matrix m ! nat (new_size m - 1) ! nat y))"
      "set_true m (new_size m - 1) y = (Inr (), put m (nat (new_size m - 1)) (nat y)
           (set_true_table_0 ! nat (matrix m ! nat (new_size m - 1) ! nat y)))"
      "set_false m (new_size m - 1) y = (Inr (), put m (nat (new_size m - 1)) (nat y)
           (set_false_table_0 ! nat (matrix m ! nat (new_size m - 1) ! nat y)))"
    using last assms s by (simp_all add: sl)
  have sw: "switch m (- 1) y = switch m (new_size m - 1) y"
    by (simp add: switch_def n l)
  have "fst (switch m (- 1) y) = Inr ()"
    by (simp add: switch_def n)
  with check n l sw show ?thesis by simp
qed

theorem negative_row_index_wraps_witness:
  "invar \<lparr>og_size = 5, new_size = 3, matrix = [[0, 0, 7], [0, 0, 5], [7, 6, 1]]\<rparr> \<and>
   get \<lparr>og_size = 5, new_size = 3, matrix = [[0, 0, 7], [0, 0, 5], [7, 6, 1]]\<rparr> (- 1) 1 = Inr True \<and>
   get \<lparr>og_size = 5, new_size = 3, matrix = [[0, 0, 7], [0, 0, 5], [7, 6, 1]]\<rparr> 2 1 = Inr True \<and>
   set_false \<lparr>og_size = 5, new_size = 3, matrix = [[0, 0, 7], [0, 0, 5], [7, 6, 1]]\<rparr> (- 1) 1
     = (Inr (), \<lparr>og_size = 5, new_size = 3, matrix = [[0, 0, 7], [0, 0, 5], [7, 3, 1]]\<rparr>) \<and>
   set_false \<lparr>og_size = 5, new_size = 3, matrix = [[0, 0, 7], [0, 0, 5], [7, 6, 1]]\<rparr> 2 1
     = (Inr (), \<lparr>og_size = 5, new_size = 3, matrix = [[0, 0, 7], [0, 0, 5], [7, 3, 1]]\<rparr>)"
proof -
  have h: "invar \<lparr>og_size = 5, new_size = 3, matrix = [[0, 0, 7], [0, 0, 5], [7, 6, 1]]\<rparr>"
    by code_simp
  have "get \<lparr>og_size = 5, new_size = 3, matrix = [[0, 0, 7], [0, 0, 5], [7, 6, 1]]\<rparr> 2 1 = Inr True"
    and "set_false \<lparr>og_size = 5, new_size = 3, matrix = [[0, 0, 7], [0, 0, 5], [7, 6, 1]]\<rparr> 2 1
     = (Inr (), \<lparr>og_size = 5, new_size = 3, matrix = [[0, 0, 7], [0, 0, 5], [7, 3, 1]]\<rparr>)"
    by code_simp+
  then show ?thesis
    using h negative_row_index_wraps
      [of "\<lparr>og_size = 5, new_size = 3, matrix = [[0, 0, 7], [0, 0, 5], [7, 6, 1]]\<rparr>" 1 0 0]
    by (simp add: truth_table_0_def set_false_table_0_def put_def)
qed

end
